theory Spec2Isabelle
  imports Main "HOL-Library.Sublist" "HOL-Library.Multiset"
begin

section \<open>docker-trim: the trace parser, the path classifier, the set reducer and the session\<close>

text \<open>
  The definitions below embed \<^verbatim>\<open>src/init.py\<close>. A Python \<^verbatim>\<open>str\<close> is a
  \<^typ>\<open>string\<close>, one \<^typ>\<open>char\<close> per code point; only code points below 256 exist in
  this type, so the two line separators U+2028 and U+2029 of \<^verbatim>\<open>str.splitlines\<close> have
  no counterpart here. A Python \<^verbatim>\<open>set\<close> of strings is a \<^typ>\<open>string set\<close>.
\<close>

subsection \<open>Constants of the module\<close>

definition COMMON_SYSTEM_DIRS :: "string list" where
  "COMMON_SYSTEM_DIRS =
     [''/dev'', ''/proc'', ''/sys'', ''/tmp'', ''/var/log'', ''/run'', ''/var/run'',
      ''/var/tmp'', ''/var/lib'', ''/etc/ssl'', ''/usr/share/ca-certificates'']"

definition log_path_in_container :: string where
  "log_path_in_container = ''/tmp/strace.log''"

subsection \<open>\<^verbatim>\<open>str.splitlines\<close>\<close>

text \<open>
  The line boundaries of \<^verbatim>\<open>str.splitlines()\<close> below U+0100: LF, VT, FF, CR, FS, GS, RS
  and NEL. CR LF is one boundary. The boundary is not kept, and text that ends with a
  boundary has no empty last line. \<open>cur\<close> holds the current line, last character first.
\<close>

definition is_linebreak :: "char \<Rightarrow> bool" where
  "is_linebreak c \<longleftrightarrow>
     c \<in> {CHR 0x0A, CHR 0x0B, CHR 0x0C, CHR 0x0D, CHR 0x1C, CHR 0x1D, CHR 0x1E, CHR 0x85}"

fun splitlines_from :: "string \<Rightarrow> string \<Rightarrow> string list" where
  "splitlines_from cur [] = (if cur = [] then [] else [rev cur])"
| "splitlines_from cur [c] = (if is_linebreak c then [rev cur] else [rev (c # cur)])"
| "splitlines_from cur (c # d # cs) =
     (if c = CHR 0x0D \<and> d = CHR 0x0A then rev cur # splitlines_from [] cs
      else if is_linebreak c then rev cur # splitlines_from [] (d # cs)
      else splitlines_from (c # cur) (d # cs))"

definition splitlines :: "string \<Rightarrow> string list" where
  "splitlines s = splitlines_from [] s"

subsection \<open>The regular expression of \<^verbatim>\<open>parse_strace_file_accesses\<close>\<close>

text \<open>
  \<^verbatim>\<open>(openat|open|access|stat|faccessat|lstat|newfstatat|fstat|readlinkat|readlink|statx).*?"(.*?)"\<close>
  is run by a backtracking matcher: \<^verbatim>\<open>regex.search\<close> tries the start positions from left
  to right, the alternatives in the order written, and each lazy \<^verbatim>\<open>.*?\<close> from the
  shortest run upwards. Without the DOTALL flag \<^verbatim>\<open>.\<close> is any character but LF. The
  functions return group 2 of the first match found.
\<close>

definition dq :: char where
  "dq = CHR 0x22"

definition file_access_syscalls :: "string list" where
  "file_access_syscalls =
     [''openat'', ''open'', ''access'', ''stat'', ''faccessat'', ''lstat'', ''newfstatat'',
      ''fstat'', ''readlinkat'', ''readlink'', ''statx'']"

definition dot :: "char \<Rightarrow> bool" where
  "dot c \<longleftrightarrow> c \<noteq> CHR 0x0A"

text \<open>The tail \<^verbatim>\<open>(.*?)"\<close>: the group grows one character at a time until a quote follows.\<close>

fun group_then_quote :: "string \<Rightarrow> string option" where
  "group_then_quote [] = None"
| "group_then_quote (c # cs) =
     (if c = dq then Some []
      else if dot c then map_option ((#) c) (group_then_quote cs)
      else None)"

text \<open>
  \<^verbatim>\<open>.*?"(.*?)"\<close>: the lazy run stops at a quote and the tail is tried; when the tail
  fails the run takes the quote as one more character and goes on.
\<close>

fun skip_then_quoted :: "string \<Rightarrow> string option" where
  "skip_then_quoted [] = None"
| "skip_then_quoted (c # cs) =
     (if c = dq then
        (case group_then_quote cs of
           Some g \<Rightarrow> Some g
         | None \<Rightarrow> if dot c then skip_then_quoted cs else None)
      else if dot c then skip_then_quoted cs
      else None)"

text \<open>The alternation at one start position, in the order written.\<close>

fun match_at :: "string list \<Rightarrow> string \<Rightarrow> string option" where
  "match_at [] s = None"
| "match_at (n # ns) s =
     (if prefix n s then
        (case skip_then_quoted (drop (length n) s) of
           Some g \<Rightarrow> Some g
         | None \<Rightarrow> match_at ns s)
      else match_at ns s)"

fun regex_search :: "string \<Rightarrow> string option" where
  "regex_search [] = match_at file_access_syscalls []"
| "regex_search (c # cs) =
     (case match_at file_access_syscalls (c # cs) of
        Some g \<Rightarrow> Some g
      | None \<Rightarrow> regex_search cs)"

subsection \<open>\<^verbatim>\<open>parse_strace_file_accesses\<close>\<close>

text \<open>One turn of the loop over the lines: \<^verbatim>\<open>accessed_files\<close> before and after.\<close>

definition add_line :: "string \<Rightarrow> string set \<Rightarrow> string set" where
  "add_line line accessed_files =
     (case regex_search line of
        None \<Rightarrow> accessed_files
      | Some filepath \<Rightarrow>
          if filepath \<noteq> [] then insert filepath accessed_files else accessed_files)"

definition parse_strace_file_accesses :: "string \<Rightarrow> string set" where
  "parse_strace_file_accesses log = fold add_line (splitlines log) {}"

subsection \<open>\<^verbatim>\<open>is_ignorable\<close>, \<^verbatim>\<open>filter_accessed_files\<close>\<close>

definition is_ignorable :: "string \<Rightarrow> bool" where
  "is_ignorable filepath =
     (if \<not> prefix ''/'' filepath then False
      else list_ex (\<lambda>p. prefix p filepath) COMMON_SYSTEM_DIRS)"

definition filter_accessed_files :: "string set \<Rightarrow> string set" where
  "filter_accessed_files accessed_files = {f \<in> accessed_files. \<not> is_ignorable f}"

subsection \<open>\<^verbatim>\<open>compare_file_sets\<close>\<close>

text \<open>
  The dictionary returned has the two keys \<^verbatim>\<open>added_files\<close> and \<^verbatim>\<open>deleted_files\<close>.
  \<^verbatim>\<open>list(s)\<close> lists a set in an order the language does not fix; it is the parameter
  \<open>list_of\<close>, of which the properties assume only that it lists each member of a finite
  set once.
\<close>

record 'a file_diff =
  added_files :: "'a list"
  deleted_files :: "'a list"

definition compare_file_sets ::
  "('a set \<Rightarrow> 'a list) \<Rightarrow> 'a set \<Rightarrow> 'a set \<Rightarrow> 'a file_diff" where
  "compare_file_sets list_of before after =
     (let deleted = before - after;
          added = after - before
      in \<lparr>added_files = list_of added, deleted_files = list_of deleted\<rparr>)"

definition lists_each_once :: "('a set \<Rightarrow> 'a list) \<Rightarrow> bool" where
  "lists_each_once list_of \<longleftrightarrow> (\<forall>S. finite S \<longrightarrow> set (list_of S) = S \<and> distinct (list_of S))"

subsection \<open>Exceptions and printed diagnostics\<close>

text \<open>
  An exception carries \<^verbatim>\<open>str(e)\<close>. In the Docker SDK \<^verbatim>\<open>ImageNotFound\<close> is a
  \<^verbatim>\<open>NotFound\<close> and \<^verbatim>\<open>NotFound\<close> is an \<^verbatim>\<open>APIError\<close>; every constructor is an
  \<^verbatim>\<open>Exception\<close>.
\<close>

datatype exn =
    ImageNotFound string
  | NotFound string
  | APIError string
  | RuntimeError string
  | OSError string
  | OtherException string

fun str_of :: "exn \<Rightarrow> string" where
  "str_of (ImageNotFound m) = m"
| "str_of (NotFound m) = m"
| "str_of (APIError m) = m"
| "str_of (RuntimeError m) = m"
| "str_of (OSError m) = m"
| "str_of (OtherException m) = m"

fun is_ImageNotFound :: "exn \<Rightarrow> bool" where
  "is_ImageNotFound (ImageNotFound m) = True"
| "is_ImageNotFound e = False"

fun is_NotFound :: "exn \<Rightarrow> bool" where
  "is_NotFound (ImageNotFound m) = True"
| "is_NotFound (NotFound m) = True"
| "is_NotFound e = False"

fun is_APIError :: "exn \<Rightarrow> bool" where
  "is_APIError (ImageNotFound m) = True"
| "is_APIError (NotFound m) = True"
| "is_APIError (APIError m) = True"
| "is_APIError e = False"

fun is_RuntimeError :: "exn \<Rightarrow> bool" where
  "is_RuntimeError (RuntimeError m) = True"
| "is_RuntimeError e = False"

text \<open>
  The value of \<^verbatim>\<open>Config.get('Entrypoint')\<close> and of \<^verbatim>\<open>Config.get('Cmd')\<close>, and its truth
  value in \<^verbatim>\<open>if original_entrypoint:\<close>.
\<close>

datatype cmd_value = PyNone | PyStr string | PyList "string list"

fun truthy :: "cmd_value \<Rightarrow> bool" where
  "truthy PyNone = False"
| "truthy (PyStr s) = (s \<noteq> [])"
| "truthy (PyList xs) = (xs \<noteq> [])"

text \<open>One constructor for each \<^verbatim>\<open>print\<close> of the functions embedded here, with the values it formats.\<close>

datatype diag =
    OriginalEntrypoint cmd_value
  | OriginalCmd cmd_value
  | CommandBeingWrapped "string list"
  | CreatedWrapperScript string
  | ContainerStarted string
  | StartupFailureLogs string
  | APIErrorLogs string
  | NoContainerLogs
  | Stopping string
  | Stopped string
  | StopNotFound string
  | StopAPIError string string
  | StopUnexpected string string
  | Removing string
  | Removed string
  | RemoveNotFound string
  | RemoveAPIError string string
  | RemoveUnexpected string string
  | CleanedUpWrapper string
  | CleanupError string string
  | ScriptError string
  | UnexpectedScriptError string
  | ErrorListingFiles string int
  | ExceptionListingFiles string
  | ErrorRetrievingLog string int
  | ExceptionRetrievingLog string
  | OutputText string

subsection \<open>\<^verbatim>\<open>list_container_files\<close>, \<^verbatim>\<open>retrieve_strace_log\<close>\<close>

text \<open>
  \<open>exec_run\<close> is \<^verbatim>\<open>container.exec_run\<close>: for a command line, an exception or the exit
  code with the output bytes. \<open>decode\<close> is \<^verbatim>\<open>bytes.decode()\<close>: the text, or the
  \<^verbatim>\<open>UnicodeDecodeError\<close>. Both functions return their value with what they printed; the
  whole body of each is inside \<^verbatim>\<open>try\<close> with \<^verbatim>\<open>except Exception\<close>, so neither has a
  result that is an exception.
\<close>

definition list_container_files ::
  "('b \<Rightarrow> exn + string) \<Rightarrow> (string \<Rightarrow> exn + int \<times> 'b) \<Rightarrow> string \<Rightarrow> string set \<times> diag list" where
  "list_container_files decode exec_run path =
     (case exec_run (''find '' @ [dq] @ path @ [dq] @ '' -type f'') of
        Inl e \<Rightarrow> ({}, [ExceptionListingFiles (str_of e)])
      | Inr (exit_code, output) \<Rightarrow>
          if exit_code = 0 then
            (case decode output of
               Inl e \<Rightarrow> ({}, [ExceptionListingFiles (str_of e)])
             | Inr text \<Rightarrow> ({f \<in> set (splitlines text). f \<noteq> []}, []))
          else
            (case decode output of
               Inl e \<Rightarrow> ({}, [ErrorListingFiles path exit_code, ExceptionListingFiles (str_of e)])
             | Inr text \<Rightarrow> ({}, [ErrorListingFiles path exit_code, OutputText text])))"

definition retrieve_strace_log ::
  "('b \<Rightarrow> exn + string) \<Rightarrow> (string \<Rightarrow> exn + int \<times> 'b) \<Rightarrow> string \<Rightarrow> string \<times> diag list" where
  "retrieve_strace_log decode exec_run log_path =
     (case exec_run (''cat '' @ log_path) of
        Inl e \<Rightarrow> ([], [ExceptionRetrievingLog (str_of e)])
      | Inr (exit_code, output) \<Rightarrow>
          if exit_code = 0 then
            (case decode output of
               Inl e \<Rightarrow> ([], [ExceptionRetrievingLog (str_of e)])
             | Inr text \<Rightarrow> (text, []))
          else
            (case decode output of
               Inl e \<Rightarrow> ([], [ErrorRetrievingLog log_path exit_code, ExceptionRetrievingLog (str_of e)])
             | Inr text \<Rightarrow> ([], [ErrorRetrievingLog log_path exit_code, OutputText text])))"

subsection \<open>The session: engine, host and trimmer\<close>

text \<open>
  What the Docker engine and the host answer during one session, one field for each call
  the code makes: an exception, or the value returned. \<open>container_logs\<close> is
  \<^verbatim>\<open>container.logs().decode()\<close>. \<^verbatim>\<open>os.unlink\<close> fails with an \<^verbatim>\<open>OSError\<close> only, whose
  text is \<open>os_unlink\<close>. \<open>analysis\<close> stands for the statements of the module's \<^verbatim>\<open>try\<close>
  block after \<^verbatim>\<open>init_container\<close> (invocation, log retrieval, parsing, memory statistics):
  they make no call that stops or removes a container or deletes a file, and they finish
  or one of them raises.
\<close>

record engine =
  images_get :: "exn + cmd_value \<times> cmd_value"
  mktemp :: "exn + string"
  script_write :: "exn option"
  script_chmod :: "exn option"
  containers_run :: "exn + string"
  container_reload :: "exn + string"
  container_logs :: "exn + string"
  analysis :: "exn option"
  container_stop :: "exn option"
  container_remove :: "exn option"
  os_path_exists :: bool
  os_unlink :: "string option"

text \<open>The calls made and the lines printed, in order.\<close>

datatype event =
    ImagesGet string
  | MkTemp
  | ScriptWrite string
  | ScriptChmod string
  | ContainersRun string string "string list" string
  | ContainerReload string
  | ContainerLogs string
  | Analysis string
  | ContainerStop string
  | ContainerRemove string
  | OsPathExists string
  | OsUnlink string
  | Print diag

text \<open>
  The \<^verbatim>\<open>DockerTrim\<close> object with the events so far. A container handle is the
  container's id.
\<close>

record session =
  image_name :: string
  wrapper_script_path_host :: "string option"
  events :: "event list"

definition emit :: "event list \<Rightarrow> session \<Rightarrow> session" where
  "emit es s = s\<lparr>events := events s @ es\<rparr>"

definition quoted :: "string \<Rightarrow> string" where
  "quoted s = [CHR 0x27] @ s @ [CHR 0x27]"

definition get_image_config :: "engine \<Rightarrow> string \<Rightarrow> exn + cmd_value \<times> cmd_value" where
  "get_image_config eng img =
     (case images_get eng of
        Inr config \<Rightarrow> Inr config
      | Inl e \<Rightarrow>
          if is_ImageNotFound e then
            Inl (RuntimeError (''Image '' @ quoted img @ '' not found during inspection.''))
          else if is_APIError e then
            Inl (RuntimeError (''Error inspecting image '' @ quoted img @ '': '' @ str_of e))
          else Inl e)"

text \<open>Lines 52 to 56 and 58 to 62: one value appended to, or extending, the command.\<close>

definition add_command :: "cmd_value \<Rightarrow> string list \<Rightarrow> string list" where
  "add_command v command_to_wrap =
     (if truthy v then
        (case v of
           PyStr s \<Rightarrow> command_to_wrap @ [s]
         | PyList xs \<Rightarrow> command_to_wrap @ xs
         | PyNone \<Rightarrow> command_to_wrap)
      else command_to_wrap)"

definition command_to_wrap :: "cmd_value \<Rightarrow> cmd_value \<Rightarrow> string list" where
  "command_to_wrap original_entrypoint original_cmd =
     add_command original_cmd (add_command original_entrypoint [])"

definition wrapper_container_path :: string where
  "wrapper_container_path = ''/wrapper.sh''"

text \<open>
  The \<^verbatim>\<open>try\<close> block of \<^verbatim>\<open>init_container\<close>: the exception raised or the container
  returned, the local variable \<^verbatim>\<open>container\<close> at that point, and the session.
\<close>

definition start_container ::
  "engine \<Rightarrow> string list \<Rightarrow> string \<Rightarrow> session \<Rightarrow> (exn + string) \<times> string option \<times> session" where
  "start_container eng cmd path s =
     (let s1 = emit [ContainersRun (image_name s) wrapper_container_path cmd path] s
      in case containers_run eng of
           Inl e \<Rightarrow> (Inl e, None, s1)
         | Inr c \<Rightarrow>
             (let s2 = emit [Print (ContainerStarted c), ContainerReload c] s1
              in case container_reload eng of
                   Inl e \<Rightarrow> (Inl e, Some c, s2)
                 | Inr status \<Rightarrow>
                     if status \<noteq> ''running'' then
                       (case container_logs eng of
                          Inl e \<Rightarrow> (Inl e, Some c, emit [ContainerLogs c] s2)
                        | Inr logs \<Rightarrow>
                            (Inl (RuntimeError (''Container failed to start. Status: '' @ status)),
                             Some c,
                             emit [ContainerLogs c, Print (StartupFailureLogs logs)] s2))
                     else (Inr c, Some c, s2)))"

definition make_wrapper :: "engine \<Rightarrow> session \<Rightarrow> (exn + string) \<times> session" where
  "make_wrapper eng s =
     (case mktemp eng of
        Inl e \<Rightarrow> (Inl e, emit [MkTemp] s)
      | Inr path \<Rightarrow>
          (let s1 = emit [MkTemp, ScriptWrite path] (s\<lparr>wrapper_script_path_host := Some path\<rparr>)
           in case script_write eng of
                Some e \<Rightarrow> (Inl e, s1)
              | None \<Rightarrow>
                  (case script_chmod eng of
                     Some e \<Rightarrow> (Inl e, emit [ScriptChmod path] s1)
                   | None \<Rightarrow>
                       (Inr path, emit [ScriptChmod path, Print (CreatedWrapperScript path)] s1))))"

definition init_try :: "engine \<Rightarrow> session \<Rightarrow> (exn + string) \<times> string option \<times> session" where
  "init_try eng s =
     (let s1 = emit [ImagesGet (image_name s)] s
      in case get_image_config eng (image_name s) of
           Inl e \<Rightarrow> (Inl e, None, s1)
         | Inr (original_entrypoint, original_cmd) \<Rightarrow>
             (let s2 = emit [Print (OriginalEntrypoint original_entrypoint),
                             Print (OriginalCmd original_cmd)] s1;
                  cmd = command_to_wrap original_entrypoint original_cmd
              in if cmd = [] then
                   (Inl (RuntimeError (''Could not determine the command to wrap from image ''
                           @ quoted (image_name s) @ ''. Does it have an ENTRYPOINT or CMD?'')),
                    None, s2)
                 else
                   (case make_wrapper eng (emit [Print (CommandBeingWrapped cmd)] s2) of
                      (Inl e, s3) \<Rightarrow> (Inl e, None, s3)
                    | (Inr path, s3) \<Rightarrow> start_container eng cmd path s3)))"

text \<open>\<^verbatim>\<open>init_container\<close>: the \<^verbatim>\<open>try\<close> block and its three handlers, in their order.\<close>

definition init_container :: "engine \<Rightarrow> session \<Rightarrow> (exn + string) \<times> session" where
  "init_container eng s =
     (case init_try eng s of
        (Inr c, container, s') \<Rightarrow> (Inr c, s')
      | (Inl e, container, s') \<Rightarrow>
          if is_ImageNotFound e then
            (Inl (RuntimeError (''Image '' @ quoted (image_name s) @ '' not found.'')), s')
          else if is_APIError e then
            (Inl (RuntimeError (''Error starting container: '' @ str_of e)),
             (case container of
                None \<Rightarrow> s'
              | Some c \<Rightarrow>
                  (case container_logs eng of
                     Inr logs \<Rightarrow> emit [ContainerLogs c, Print (APIErrorLogs logs)] s'
                   | Inl e' \<Rightarrow> emit [ContainerLogs c, Print NoContainerLogs] s')))
          else
            (Inl (RuntimeError (''An unexpected error occurred during container initialization: ''
                    @ str_of e)), s'))"

definition stop_container :: "engine \<Rightarrow> string \<Rightarrow> session \<Rightarrow> session" where
  "stop_container eng c s =
     (let s1 = emit [Print (Stopping c), ContainerStop c] s
      in case container_stop eng of
           None \<Rightarrow> emit [Print (Stopped c)] s1
         | Some e \<Rightarrow>
             if is_NotFound e then emit [Print (StopNotFound c)] s1
             else if is_APIError e then emit [Print (StopAPIError c (str_of e))] s1
             else emit [Print (StopUnexpected c (str_of e))] s1)"

definition remove_container :: "engine \<Rightarrow> string \<Rightarrow> session \<Rightarrow> session" where
  "remove_container eng c s =
     (let s1 = emit [Print (Removing c), ContainerRemove c] s
      in case container_remove eng of
           None \<Rightarrow> emit [Print (Removed c)] s1
         | Some e \<Rightarrow>
             if is_NotFound e then emit [Print (RemoveNotFound c)] s1
             else if is_APIError e then emit [Print (RemoveAPIError c (str_of e))] s1
             else emit [Print (RemoveUnexpected c (str_of e))] s1)"

definition cleanup :: "engine \<Rightarrow> string option \<Rightarrow> session \<Rightarrow> session" where
  "cleanup eng container s =
     (let s1 = (case container of
                  None \<Rightarrow> s
                | Some c \<Rightarrow> remove_container eng c (stop_container eng c s))
      in case wrapper_script_path_host s1 of
           None \<Rightarrow> s1
         | Some path \<Rightarrow>
             if path = [] then s1
             else if \<not> os_path_exists eng then emit [OsPathExists path] s1
             else
               (let s2 = emit [OsPathExists path, OsUnlink path] s1;
                    s3 = (case os_unlink eng of
                            None \<Rightarrow> emit [Print (CleanedUpWrapper path)] s2
                          | Some m \<Rightarrow> emit [Print (CleanupError path m)] s2)
                in s3\<lparr>wrapper_script_path_host := None\<rparr>))"

text \<open>
  The module's \<^verbatim>\<open>try\<close>, its two handlers and its \<^verbatim>\<open>finally\<close>. The module's variable
  \<^verbatim>\<open>container\<close> is \<^verbatim>\<open>None\<close> until \<^verbatim>\<open>init_container\<close> has returned.
\<close>

definition run_session :: "engine \<Rightarrow> string \<Rightarrow> session" where
  "run_session eng img =
     (let trimmer = \<lparr>image_name = img, wrapper_script_path_host = None, events = []\<rparr>
      in case init_container eng trimmer of
           (Inl e, s) \<Rightarrow>
             cleanup eng None
               (emit [Print (if is_RuntimeError e then ScriptError (str_of e)
                             else UnexpectedScriptError (str_of e))] s)
         | (Inr c, s) \<Rightarrow>
             (case analysis eng of
                None \<Rightarrow> cleanup eng (Some c) (emit [Analysis c] s)
              | Some e \<Rightarrow>
                  cleanup eng (Some c)
                    (emit [Analysis c,
                           Print (if is_RuntimeError e then ScriptError (str_of e)
                                  else UnexpectedScriptError (str_of e))] s)))"

subsection \<open>The normalisation as the specification words it\<close>

text \<open>
  The specification normalises an entrypoint or a command to an ordered sequence of
  strings: nothing when absent, one element for a single string, the sequence itself
  otherwise. This definition follows those words, not the code; the properties compare
  \<open>command_to_wrap\<close> with it.
\<close>

fun spec_sequence_of :: "cmd_value \<Rightarrow> string list" where
  "spec_sequence_of PyNone = []"
| "spec_sequence_of (PyStr s) = [s]"
| "spec_sequence_of (PyList xs) = xs"

subsection \<open>A sample session\<close>

text \<open>
  An image whose container exits at once, as one without \<^verbatim>\<open>/usr/bin/strace\<close> does under
  the wrapper script: the engine creates the container and reports the status
  \<^verbatim>\<open>exited\<close> after the wait.
\<close>

definition sample_engine :: engine where
  "sample_engine =
     \<lparr>images_get = Inr (PyList [''/lambda-entrypoint.sh''], PyList [''app.handler'']),
      mktemp = Inr ''/tmp/strace_wrapper_k3.sh'',
      script_write = None,
      script_chmod = None,
      containers_run = Inr ''c1'',
      container_reload = Inr ''exited'',
      container_logs = Inr ''/wrapper.sh: line 4: /usr/bin/strace: No such file or directory'',
      analysis = None,
      container_stop = None,
      container_remove = None,
      os_path_exists = True,
      os_unlink = None\<rparr>"

section \<open>Properties\<close>

subsection \<open>Lines\<close>

lemma splitlines_from_crlf:
  "c = CHR 0x0D \<and> d = CHR 0x0A
   \<Longrightarrow> splitlines_from cur (c # d # cs) = rev cur # splitlines_from [] cs"
  by simp

lemma splitlines_from_break:
  "\<not> (c = CHR 0x0D \<and> d = CHR 0x0A) \<Longrightarrow> is_linebreak c
   \<Longrightarrow> splitlines_from cur (c # d # cs) = rev cur # splitlines_from [] (d # cs)"
  by (cases "c = CHR 0x0D") simp_all

lemma splitlines_from_plain:
  "\<not> (c = CHR 0x0D \<and> d = CHR 0x0A) \<Longrightarrow> \<not> is_linebreak c
   \<Longrightarrow> splitlines_from cur (c # d # cs) = splitlines_from (c # cur) (d # cs)"
  by (cases "c = CHR 0x0D") simp_all

lemma splitlines_from_no_linebreak:
  "line \<in> set (splitlines_from cur s) \<Longrightarrow> \<forall>c\<in>set cur. \<not> is_linebreak c
   \<Longrightarrow> \<forall>c\<in>set line. \<not> is_linebreak c"
proof (induction cur s rule: splitlines_from.induct)
  case (1 cur)
  then show ?case by (auto split: if_splits)
next
  case (2 cur c)
  then show ?case by (auto split: if_splits)
next
  case (3 cur c d cs)
  show ?case
  proof (cases "c = CHR 0x0D \<and> d = CHR 0x0A")
    case True
    with "3.prems"(1) have "line = rev cur \<or> line \<in> set (splitlines_from [] cs)" by simp
    then show ?thesis
    proof
      assume "line = rev cur"
      with "3.prems"(2) show ?thesis by simp
    next
      assume "line \<in> set (splitlines_from [] cs)"
      then show ?thesis using "3.IH"(1) [OF True] by simp
    qed
  next
    case crlf: False
    show ?thesis
    proof (cases "is_linebreak c")
      case True
      have "splitlines_from cur (c # d # cs) = rev cur # splitlines_from [] (d # cs)"
        using crlf True by (rule splitlines_from_break)
      from "3.prems"(1) [unfolded this]
      have "line = rev cur \<or> line \<in> set (splitlines_from [] (d # cs))"
        by simp
      then show ?thesis
      proof
        assume "line = rev cur"
        with "3.prems"(2) show ?thesis by simp
      next
        assume "line \<in> set (splitlines_from [] (d # cs))"
        then show ?thesis using "3.IH"(2) [OF crlf True] by simp
      qed
    next
      case False
      have "splitlines_from cur (c # d # cs) = splitlines_from (c # cur) (d # cs)"
        using crlf False by (rule splitlines_from_plain)
      from "3.prems"(1) [unfolded this]
      have "line \<in> set (splitlines_from (c # cur) (d # cs))" .
      moreover from False "3.prems"(2) have "\<forall>x\<in>set (c # cur). \<not> is_linebreak x" by simp
      ultimately show ?thesis using "3.IH"(3) [OF crlf False] by blast
    qed
  qed
qed


lemma splitlines_no_linebreak:
  "line \<in> set (splitlines s) \<Longrightarrow> c \<in> set line \<Longrightarrow> \<not> is_linebreak c"
  using splitlines_from_no_linebreak [of line "[]" s] by (simp add: splitlines_def)

lemma splitlines_dot:
  "line \<in> set (splitlines s) \<Longrightarrow> c \<in> set line \<Longrightarrow> dot c"
  using splitlines_no_linebreak [of line s c] by (auto simp: dot_def is_linebreak_def)

lemma group_then_quote_complete:
  "dq \<notin> set q \<Longrightarrow> \<forall>c\<in>set q. dot c \<Longrightarrow> group_then_quote (q @ dq # rest) = Some q"
  by (induction q) auto

lemma group_then_quote_sound:
  "group_then_quote s = Some g \<Longrightarrow> \<exists>rest. s = g @ dq # rest \<and> dq \<notin> set g"
proof (induction s arbitrary: g)
  case Nil
  then show ?case by simp
next
  case (Cons c cs)
  show ?case
  proof (cases "c = dq")
    case True
    with Cons.prems show ?thesis by simp
  next
    case False
    with Cons.prems obtain g' where g': "group_then_quote cs = Some g'" "g = c # g'"
      by (auto split: if_splits)
    from Cons.IH [OF g'(1)] obtain rest where "cs = g' @ dq # rest" "dq \<notin> set g'" by blast
    with g'(2) False show ?thesis by auto
  qed
qed

lemma group_none_skip_none:
  "group_then_quote s = None \<Longrightarrow> skip_then_quoted s = None"
  by (induction s) (auto split: if_splits)

lemma skip_then_quoted_sound:
  "skip_then_quoted s = Some g
   \<Longrightarrow> \<exists>mid rest. s = mid @ dq # g @ dq # rest \<and> dq \<notin> set mid \<and> dq \<notin> set g"
proof (induction s)
  case Nil
  then show ?case by simp
next
  case (Cons c cs)
  show ?case
  proof (cases "c = dq")
    case True
    show ?thesis
    proof (cases "group_then_quote cs")
      case None
      then have "skip_then_quoted cs = None" by (rule group_none_skip_none)
      with Cons.prems True None show ?thesis by (simp split: if_splits)
    next
      case (Some g')
      with Cons.prems True have "g' = g" by simp
      with Some obtain rest where "cs = g @ dq # rest" "dq \<notin> set g"
        using group_then_quote_sound by blast
      with True have "c # cs = [] @ dq # g @ dq # rest \<and> dq \<notin> set [] \<and> dq \<notin> set g" by simp
      then show ?thesis by blast
    qed
  next
    case False
    with Cons.prems have "skip_then_quoted cs = Some g" by (simp split: if_splits)
    from Cons.IH [OF this] obtain mid rest
      where "cs = mid @ dq # g @ dq # rest" "dq \<notin> set mid" "dq \<notin> set g" by blast
    with False have "c # cs = (c # mid) @ dq # g @ dq # rest \<and> dq \<notin> set (c # mid) \<and> dq \<notin> set g"
      by auto
    then show ?thesis by blast
  qed
qed

lemma skip_then_quoted_skip:
  "dq \<notin> set a \<Longrightarrow> \<forall>c\<in>set a. dot c \<Longrightarrow> skip_then_quoted (a @ s) = skip_then_quoted s"
  by (induction a) auto

lemma skip_then_quoted_complete:
  assumes "dq \<notin> set mid" "\<forall>c\<in>set mid. dot c" "dq \<notin> set q" "\<forall>c\<in>set q. dot c"
  shows "skip_then_quoted (mid @ dq # q @ dq # rest) = Some q"
proof -
  have "skip_then_quoted (mid @ dq # q @ dq # rest) = skip_then_quoted (dq # q @ dq # rest)"
    using assms(1,2) by (rule skip_then_quoted_skip)
  also have "\<dots> = Some q"
    using group_then_quote_complete [OF assms(3,4), of rest] by simp
  finally show ?thesis .
qed

lemma skip_then_quoted_few_quotes:
  "length (filter (\<lambda>c. c = dq) s) < 2 \<Longrightarrow> skip_then_quoted s = None"
proof (rule ccontr)
  assume few: "length (filter (\<lambda>c. c = dq) s) < 2" and "skip_then_quoted s \<noteq> None"
  then obtain g where "skip_then_quoted s = Some g" by auto
  from skip_then_quoted_sound [OF this] obtain mid rest where "s = mid @ dq # g @ dq # rest"
    by blast
  with few show False by simp
qed

subsection \<open>The matcher\<close>

lemma syscall_plain:
  "n \<in> set file_access_syscalls \<Longrightarrow> dq \<notin> set n \<and> (\<forall>c\<in>set n. dot c)"
  by (auto simp: file_access_syscalls_def dq_def dot_def)

lemma match_at_sound:
  "match_at ns s = Some g
   \<Longrightarrow> \<exists>n\<in>set ns. prefix n s \<and> skip_then_quoted (drop (length n) s) = Some g"
  by (induction ns) (auto split: if_splits option.splits)

lemma match_at_no_prefix: "\<forall>n\<in>set ns. \<not> prefix n s \<Longrightarrow> match_at ns s = None"
  by (induction ns) auto

lemma skip_after_name:
  assumes "dq \<notin> set n" "\<forall>c\<in>set n. dot c" "prefix n s"
  shows "skip_then_quoted (drop (length n) s) = skip_then_quoted s"
proof -
  from assms(3) obtain t where s: "s = n @ t" by (auto simp: prefix_def)
  then have "skip_then_quoted s = skip_then_quoted t"
    using skip_then_quoted_skip [OF assms(1,2)] by simp
  with s show ?thesis by simp
qed

lemma match_at_complete:
  "\<forall>n\<in>set ns. dq \<notin> set n \<and> (\<forall>c\<in>set n. dot c)
   \<Longrightarrow> match_at ns s = (if \<exists>n\<in>set ns. prefix n s then skip_then_quoted s else None)"
proof (induction ns)
  case Nil
  then show ?case by simp
next
  case (Cons n ns)
  then have IH: "match_at ns s = (if \<exists>n\<in>set ns. prefix n s then skip_then_quoted s else None)"
    by simp
  show ?case
  proof (cases "prefix n s")
    case True
    with Cons.prems have "skip_then_quoted (drop (length n) s) = skip_then_quoted s"
      by (simp add: skip_after_name)
    with True IH show ?thesis by (simp split: option.splits)
  next
    case False
    with IH show ?thesis by simp
  qed
qed

lemma match_at_syscalls:
  "match_at file_access_syscalls s =
     (if \<exists>n\<in>set file_access_syscalls. prefix n s then skip_then_quoted s else None)"
  by (rule match_at_complete) (simp add: syscall_plain)

lemma regex_search_sound:
  "regex_search line = Some g
   \<Longrightarrow> \<exists>pre n mid rest. line = pre @ n @ mid @ dq # g @ dq # rest
         \<and> n \<in> set file_access_syscalls \<and> dq \<notin> set mid \<and> dq \<notin> set g"
proof (induction line)
  case Nil
  then show ?case by (simp add: match_at_syscalls split: if_splits)
next
  case (Cons c cs)
  show ?case
  proof (cases "match_at file_access_syscalls (c # cs)")
    case None
    with Cons.prems have "regex_search cs = Some g" by simp
    from Cons.IH [OF this] obtain pre n mid rest
      where "cs = pre @ n @ mid @ dq # g @ dq # rest" "n \<in> set file_access_syscalls"
        "dq \<notin> set mid" "dq \<notin> set g" by blast
    then have "c # cs = (c # pre) @ n @ mid @ dq # g @ dq # rest
        \<and> n \<in> set file_access_syscalls \<and> dq \<notin> set mid \<and> dq \<notin> set g" by simp
    then show ?thesis by blast
  next
    case (Some g')
    with Cons.prems have g': "g' = g" by simp
    from match_at_sound [OF Some] obtain n
      where n: "n \<in> set file_access_syscalls" "prefix n (c # cs)"
        "skip_then_quoted (drop (length n) (c # cs)) = Some g" using g' by blast
    from n(2) obtain t where t: "c # cs = n @ t" by (auto simp: prefix_def)
    with n(3) have "skip_then_quoted t = Some g" by simp
    from skip_then_quoted_sound [OF this] obtain mid rest
      where "t = mid @ dq # g @ dq # rest" "dq \<notin> set mid" "dq \<notin> set g" by blast
    with t n(1) have "c # cs = [] @ n @ mid @ dq # g @ dq # rest
        \<and> n \<in> set file_access_syscalls \<and> dq \<notin> set mid \<and> dq \<notin> set g" by simp
    then show ?thesis by blast
  qed
qed

lemma regex_search_leftmost:
  "\<forall>i<length pre. \<forall>n\<in>set file_access_syscalls. \<not> prefix n (drop i (pre @ s))
   \<Longrightarrow> regex_search (pre @ s) = regex_search s"
proof (induction pre)
  case Nil
  then show ?case by simp
next
  case (Cons c pre)
  from Cons.prems have "\<forall>n\<in>set file_access_syscalls. \<not> prefix n (drop 0 ((c # pre) @ s))"
    by blast
  then have "match_at file_access_syscalls (c # pre @ s) = None"
    by (simp add: match_at_no_prefix)
  then have step: "regex_search ((c # pre) @ s) = regex_search (pre @ s)" by simp
  have "\<forall>i<length pre. \<forall>n\<in>set file_access_syscalls. \<not> prefix n (drop i (pre @ s))"
  proof (intro allI impI)
    fix i assume "i < length pre"
    then have "Suc i < length (c # pre)" by simp
    with Cons.prems
    have "\<forall>n\<in>set file_access_syscalls. \<not> prefix n (drop (Suc i) ((c # pre) @ s))" by blast
    then show "\<forall>n\<in>set file_access_syscalls. \<not> prefix n (drop i (pre @ s))" by simp
  qed
  from Cons.IH [OF this] step show ?case by simp
qed

lemma regex_search_at_name:
  assumes "n \<in> set file_access_syscalls" "prefix n s" "skip_then_quoted s = Some g"
  shows "regex_search s = Some g"
proof (cases s)
  case Nil
  with assms(3) show ?thesis by simp
next
  case (Cons c cs)
  from assms(1,2) have "match_at file_access_syscalls s = skip_then_quoted s"
    by (auto simp: match_at_syscalls)
  with assms(3) Cons show ?thesis by simp
qed

lemma regex_search_complete:
  assumes line: "line = pre @ name @ mid @ [dq] @ q @ [dq] @ rest"
    and name: "name \<in> set file_access_syscalls"
    and first: "\<forall>i<length pre. \<forall>n\<in>set file_access_syscalls. \<not> prefix n (drop i line)"
    and mid: "dq \<notin> set mid" and q: "dq \<notin> set q"
    and dots: "\<forall>c\<in>set line. dot c"
  shows "regex_search line = Some q"
proof -
  let ?s = "name @ mid @ [dq] @ q @ [dq] @ rest"
  from syscall_plain [OF name] mid dots line
  have "dq \<notin> set (name @ mid)" "\<forall>c\<in>set (name @ mid). dot c" "\<forall>c\<in>set q. dot c"
    by auto
  with q have "skip_then_quoted ((name @ mid) @ dq # q @ dq # rest) = Some q"
    by (intro skip_then_quoted_complete)
  then have "skip_then_quoted ?s = Some q" by simp
  with name have "regex_search ?s = Some q"
    by (intro regex_search_at_name [of name]) simp_all
  moreover from first line have "regex_search (pre @ ?s) = regex_search ?s"
    by (intro regex_search_leftmost) simp
  ultimately show ?thesis using line by simp
qed

lemma regex_search_no_syscall:
  "\<forall>n\<in>set file_access_syscalls. \<not> sublist n line \<Longrightarrow> regex_search line = None"
proof (rule ccontr)
  assume no: "\<forall>n\<in>set file_access_syscalls. \<not> sublist n line" and "regex_search line \<noteq> None"
  then obtain g where "regex_search line = Some g" by auto
  from regex_search_sound [OF this] obtain pre n mid rest
    where "line = pre @ n @ mid @ dq # g @ dq # rest" "n \<in> set file_access_syscalls" by blast
  then have "sublist n line" "n \<in> set file_access_syscalls"
    by (auto simp: sublist_def)
  with no show False by blast
qed

lemma regex_search_few_quotes:
  "length (filter (\<lambda>c. c = dq) line) < 2 \<Longrightarrow> regex_search line = None"
proof (rule ccontr)
  assume few: "length (filter (\<lambda>c. c = dq) line) < 2" and "regex_search line \<noteq> None"
  then obtain g where "regex_search line = Some g" by auto
  from regex_search_sound [OF this] obtain pre n mid rest
    where "line = pre @ n @ mid @ dq # g @ dq # rest" by blast
  with few show False by simp
qed

lemma add_line_union: "add_line l A = A \<union> add_line l {}"
  by (auto simp: add_line_def split: option.splits)

lemma fold_add_line: "fold add_line ls A = A \<union> (\<Union>l\<in>set ls. add_line l {})"
proof (induction ls arbitrary: A)
  case Nil
  then show ?case by simp
next
  case (Cons l ls)
  have "fold add_line (l # ls) A = add_line l A \<union> (\<Union>l\<in>set ls. add_line l {})"
    using Cons.IH [of "add_line l A"] by simp
  also have "\<dots> = A \<union> add_line l {} \<union> (\<Union>l\<in>set ls. add_line l {})"
    using add_line_union [of l A] by simp
  finally show ?case by auto
qed

lemma parse_as_union:
  "parse_strace_file_accesses log = (\<Union>l\<in>set (splitlines log). add_line l {})"
  by (simp add: parse_strace_file_accesses_def fold_add_line)

lemmas parse_eval =
  parse_strace_file_accesses_def splitlines_def is_linebreak_def add_line_def
  file_access_syscalls_def dq_def dot_def

subsection \<open>The trace parser\<close>




text \<open>
  C3, as stated, at the line \<^verbatim>\<open>statfs("/data", {f_type=EXT2_SUPER_MAGIC}) = 0\<close>: the
  syscall of the line, \<^verbatim>\<open>statfs\<close>, is not a recognized name and the line has a quoted
  argument, yet the line contributes \<^verbatim>\<open>/data\<close>. The regular expression is not anchored,
  and \<^verbatim>\<open>stat\<close> matches inside \<^verbatim>\<open>statfs\<close>.
\<close>

theorem parse_ignores_incomplete_lines_counterexample:
  "''statfs'' \<notin> set file_access_syscalls
   \<and> add_line ''statfs(\"/data\", {f_type=EXT2_SUPER_MAGIC}) = 0'' {} = {''/data''}
   \<and> parse_strace_file_accesses ''statfs(\"/data\", {f_type=EXT2_SUPER_MAGIC}) = 0''
       = {''/data''}"
  by (simp add: parse_eval)

text \<open>
  C3, amended. A line in which no recognized syscall name occurs anywhere, not even as a
  part of a longer word, or which has fewer than two double quotes and so no quoted
  argument, leaves \<^verbatim>\<open>accessed_files\<close> as it was, whatever else the line holds. No line
  ends the loop: the returned set is the union of what each line of the text adds, so the
  lines after a partial line still count. The loop has no statement that raises, and the
  model has no error result.
\<close>

theorem parse_ignores_incomplete_lines:
  "((\<forall>n\<in>set file_access_syscalls. \<not> sublist n line) \<or> length (filter (\<lambda>c. c = dq) line) < 2
      \<longrightarrow> add_line line acc = acc)
   \<and> parse_strace_file_accesses log = (\<Union>l\<in>set (splitlines log). add_line l {})"
proof -
  have "add_line line acc = acc" if "\<forall>n\<in>set file_access_syscalls. \<not> sublist n line"
    using regex_search_no_syscall [OF that] by (simp add: add_line_def)
  moreover have "add_line line acc = acc" if "length (filter (\<lambda>c. c = dq) line) < 2"
    using regex_search_few_quotes [OF that] by (simp add: add_line_def)
  ultimately show ?thesis using parse_as_union by blast
qed

theorem parse_ignores_incomplete_lines_witness:
  "add_line ''stat(3, {st_mode=S_IFREG}) = 0'' {''/a''} = {''/a''}
   \<and> add_line ''close(4, \"x\") = 0'' {''/a''} = {''/a''}
   \<and> add_line ''openat(AT_FDCWD, \"/etc/pas'' {''/a''} = {''/a''}
   \<and> parse_strace_file_accesses
        (''openat(AT_FDCWD, \"/etc/pas'' @ [CHR 0x0A] @ ''stat(\"/b\", 0) = 0'') = {''/b''}"
proof -
  let ?log = "''openat(AT_FDCWD, \"/etc/pas'' @ [CHR 0x0A] @ ''stat(\"/b\", 0) = 0''"
  have a: "length (filter (\<lambda>c. c = dq) ''stat(3, {st_mode=S_IFREG}) = 0'') < 2"
    by (simp add: dq_def)
  have b: "\<forall>n\<in>set file_access_syscalls. \<not> sublist n ''close(4, \"x\") = 0''"
    by (simp add: file_access_syscalls_def sublist_code)
  have c: "length (filter (\<lambda>c. c = dq) ''openat(AT_FDCWD, \"/etc/pas'') < 2"
    by (simp add: dq_def)
  note t = parse_ignores_incomplete_lines
  have "add_line ''stat(3, {st_mode=S_IFREG}) = 0'' {''/a''} = {''/a''}"
    by (rule t [THEN conjunct1, THEN mp, OF disjI2, OF a])
  moreover have "add_line ''close(4, \"x\") = 0'' {''/a''} = {''/a''}"
    by (rule t [THEN conjunct1, THEN mp, OF disjI1, OF b])
  moreover have "add_line ''openat(AT_FDCWD, \"/etc/pas'' {''/a''} = {''/a''}"
    by (rule t [THEN conjunct1, THEN mp, OF disjI2, OF c])
  moreover have "parse_strace_file_accesses ?log = {''/b''}"
  proof -
    have "splitlines ?log = [''openat(AT_FDCWD, \"/etc/pas'', ''stat(\"/b\", 0) = 0'']"
      by (simp add: splitlines_def is_linebreak_def)
    moreover have "add_line ''openat(AT_FDCWD, \"/etc/pas'' {} = {}"
      by (rule t [THEN conjunct1, THEN mp, OF disjI2, OF c])
    moreover have "add_line ''stat(\"/b\", 0) = 0'' {} = {''/b''}"
      by (simp add: add_line_def file_access_syscalls_def dq_def dot_def)
    ultimately show ?thesis
      using t [THEN conjunct2, of ?log] by simp
  qed
  ultimately show ?thesis by blast
qed

text \<open>
  C7. Parsing is a function of the text alone, and a text whose lines are a permutation of
  the lines of another text yields the same set.
\<close>

theorem parse_order_independent:
  "(log' = log \<longrightarrow> parse_strace_file_accesses log' = parse_strace_file_accesses log)
   \<and> (mset (splitlines log') = mset (splitlines log)
        \<longrightarrow> parse_strace_file_accesses log' = parse_strace_file_accesses log)"
proof -
  have "parse_strace_file_accesses log' = parse_strace_file_accesses log"
    if "mset (splitlines log') = mset (splitlines log)"
  proof -
    from that have "set (splitlines log') = set (splitlines log)" by (rule mset_eq_setD)
    then show ?thesis by (simp add: parse_as_union)
  qed
  then show ?thesis by blast
qed

theorem parse_order_independent_witness:
  "parse_strace_file_accesses (''open(\"/a\")'' @ [CHR 0x0A] @ ''stat(\"/b\")'' @ [CHR 0x0A])
   = parse_strace_file_accesses (''stat(\"/b\")'' @ [CHR 0x0D, CHR 0x0A] @ ''open(\"/a\")'')
   \<and> parse_strace_file_accesses (''open(\"/a\")'' @ [CHR 0x0A] @ ''stat(\"/b\")'' @ [CHR 0x0A])
     = {''/a'', ''/b''}"
proof -
  let ?l1 = "''open(\"/a\")'' @ [CHR 0x0A] @ ''stat(\"/b\")'' @ [CHR 0x0A]"
  let ?l2 = "''stat(\"/b\")'' @ [CHR 0x0D, CHR 0x0A] @ ''open(\"/a\")''"
  have "mset (splitlines ?l1) = mset (splitlines ?l2)"
    by (simp add: splitlines_def is_linebreak_def)
  with parse_order_independent [of ?l1 ?l2]
  have "parse_strace_file_accesses ?l1 = parse_strace_file_accesses ?l2" by blast
  moreover have "parse_strace_file_accesses ?l1 = {''/a'', ''/b''}"
    by (simp add: parse_eval insert_commute)
  ultimately show ?thesis by blast
qed

text \<open>
  C10. The empty string is never a member of the returned set, and a line whose first
  quoted string after the leftmost recognized syscall name is \<^verbatim>\<open>""\<close> leaves
  \<^verbatim>\<open>accessed_files\<close> as it was.
\<close>

theorem parse_paths_nonempty:
  "[] \<notin> parse_strace_file_accesses log
   \<and> (line \<in> set (splitlines log) \<and> line = pre @ name @ mid @ [dq, dq] @ rest
        \<and> name \<in> set file_access_syscalls
        \<and> (\<forall>i<length pre. \<forall>n\<in>set file_access_syscalls. \<not> prefix n (drop i line))
        \<and> dq \<notin> set mid
      \<longrightarrow> regex_search line = Some [] \<and> add_line line acc = acc)"
proof -
  have "[] \<notin> add_line l {}" for l
    by (simp add: add_line_def split: option.splits)
  then have nonempty: "[] \<notin> parse_strace_file_accesses log"
    by (simp add: parse_as_union)
  have "regex_search line = Some [] \<and> add_line line acc = acc"
    if line: "line \<in> set (splitlines log)"
      and shape: "line = pre @ name @ mid @ [dq, dq] @ rest"
      and name: "name \<in> set file_access_syscalls"
      and first: "\<forall>i<length pre. \<forall>n\<in>set file_access_syscalls. \<not> prefix n (drop i line)"
      and mid: "dq \<notin> set mid"
  proof -
    from line have dots: "\<forall>c\<in>set line. dot c" by (auto intro: splitlines_dot)
    from shape have "line = pre @ name @ mid @ [dq] @ [] @ [dq] @ rest" by simp
    from regex_search_complete [OF this name first mid _ dots]
    have "regex_search line = Some []" by simp
    then show ?thesis by (simp add: add_line_def)
  qed
  with nonempty show ?thesis by blast
qed

theorem parse_paths_nonempty_witness:
  "[] \<notin> parse_strace_file_accesses ''open(\"\", \"/x\")''
   \<and> regex_search ''open(\"\", \"/x\")'' = Some []
   \<and> add_line ''open(\"\", \"/x\")'' {''/a''} = {''/a''}
   \<and> parse_strace_file_accesses ''open(\"\", \"/x\")'' = {}"
proof -
  let ?line = "''open(\"\", \"/x\")''"
  have 1: "?line \<in> set (splitlines ?line)"
    by (simp add: splitlines_def is_linebreak_def)
  have 2: "?line = [] @ ''open'' @ ''('' @ [dq, dq] @ '', \"/x\")''"
    by (simp add: dq_def)
  have 3: "''open'' \<in> set file_access_syscalls"
    by (simp add: file_access_syscalls_def)
  have 4: "\<forall>i<length ([]::string). \<forall>n\<in>set file_access_syscalls. \<not> prefix n (drop i ?line)"
    by simp
  have 5: "dq \<notin> set ''(''"
    by (simp add: dq_def)
  from parse_paths_nonempty [of ?line ?line "[]" "''open''" "''(''" "'', \"/x\")''" "{''/a''}"]
    1 2 3 4 5
  have "[] \<notin> parse_strace_file_accesses ?line \<and> regex_search ?line = Some []
      \<and> add_line ?line {''/a''} = {''/a''}" by blast
  moreover have "parse_strace_file_accesses ?line = {}"
    by (simp add: parse_eval)
  ultimately show ?thesis by blast
qed

subsection \<open>The path classifier\<close>

text \<open>
  C4. A path that does not start with \<^verbatim>\<open>/\<close> is never ignorable, and a path is ignorable
  exactly when it starts with \<^verbatim>\<open>/\<close> and with one of the prefixes of
  \<^verbatim>\<open>COMMON_SYSTEM_DIRS\<close>. \<^verbatim>\<open>/proc/1/status\<close> is ignorable; \<^verbatim>\<open>/app/model.json\<close> and
  \<^verbatim>\<open>relative/path\<close> are not.
\<close>

theorem is_ignorable_spec:
  "(\<not> prefix ''/'' path \<longrightarrow> is_ignorable path = False)
   \<and> (is_ignorable path = True
        \<longleftrightarrow> prefix ''/'' path \<and> (\<exists>p \<in> set COMMON_SYSTEM_DIRS. prefix p path))
   \<and> is_ignorable ''/proc/1/status'' = True
   \<and> is_ignorable ''/app/model.json'' = False
   \<and> is_ignorable ''relative/path'' = False"
proof -
  have general: "is_ignorable path = True
      \<longleftrightarrow> prefix ''/'' path \<and> (\<exists>p \<in> set COMMON_SYSTEM_DIRS. prefix p path)"
    by (simp add: is_ignorable_def list_ex_iff)
  have e1: "is_ignorable ''/proc/1/status'' = True"
    by (simp add: is_ignorable_def COMMON_SYSTEM_DIRS_def)
  have e2: "is_ignorable ''/app/model.json'' = False"
    by (simp add: is_ignorable_def COMMON_SYSTEM_DIRS_def)
  have e3: "is_ignorable ''relative/path'' = False"
    by (simp add: is_ignorable_def)
  from general e1 e2 e3 show ?thesis
    by (simp add: is_ignorable_def)
qed

theorem is_ignorable_spec_witness:
  "\<not> prefix ''/'' ''tmp/x'' \<and> is_ignorable ''tmp/x'' = False
   \<and> prefix ''/var/log'' ''/var/log/syslog'' \<and> is_ignorable ''/var/log/syslog'' = True"
  using is_ignorable_spec [of "''tmp/x''"] is_ignorable_spec [of "''/var/log/syslog''"]
  by (simp add: COMMON_SYSTEM_DIRS_def)

text \<open>
  C5. \<^verbatim>\<open>filter_accessed_files\<close> returns exactly the members of its argument for which
  \<^verbatim>\<open>is_ignorable\<close> is false. The set comprehension builds a new set and the function
  assigns nothing to its argument, so the model is a function of the set. For a trace text
  whose parsed access set is \<^verbatim>\<open>{"/tmp/x", "/app/config.yaml"}\<close> the filtered set is
  \<^verbatim>\<open>{"/app/config.yaml"}\<close>.
\<close>

theorem filter_accessed_files_spec:
  "filter_accessed_files S = {p \<in> S. is_ignorable p = False}
   \<and> (parse_strace_file_accesses text = {''/tmp/x'', ''/app/config.yaml''}
        \<longrightarrow> filter_accessed_files (parse_strace_file_accesses text) = {''/app/config.yaml''})"
proof -
  have "is_ignorable ''/tmp/x''" "\<not> is_ignorable ''/app/config.yaml''"
    by (simp_all add: is_ignorable_def COMMON_SYSTEM_DIRS_def)
  then have "filter_accessed_files {''/tmp/x'', ''/app/config.yaml''} = {''/app/config.yaml''}"
    by (auto simp: filter_accessed_files_def)
  then show ?thesis by (auto simp: filter_accessed_files_def)
qed

theorem filter_accessed_files_spec_witness:
  "filter_accessed_files
     (parse_strace_file_accesses
        (''openat(AT_FDCWD, \"/tmp/x\", O_RDONLY) = 3'' @ [CHR 0x0A]
         @ ''stat(\"/app/config.yaml\", {st_mode=S_IFREG}) = 0'' @ [CHR 0x0A]))
   = {''/app/config.yaml''}"
proof -
  let ?text = "''openat(AT_FDCWD, \"/tmp/x\", O_RDONLY) = 3'' @ [CHR 0x0A]
         @ ''stat(\"/app/config.yaml\", {st_mode=S_IFREG}) = 0'' @ [CHR 0x0A]"
  have "parse_strace_file_accesses ?text = {''/tmp/x'', ''/app/config.yaml''}"
    by (simp add: parse_eval insert_commute)
  with filter_accessed_files_spec [of "parse_strace_file_accesses ?text" ?text]
  show ?thesis by blast
qed

subsection \<open>The set reducer\<close>

text \<open>
  C6. For finite sets, and \<^verbatim>\<open>list\<close> listing each member of a finite set once,
  \<^verbatim>\<open>compare_file_sets\<close> returns as \<^verbatim>\<open>added_files\<close> the members of \<open>after - before\<close> and
  as \<^verbatim>\<open>deleted_files\<close> the members of \<open>before - after\<close>, each without duplicates, and the
  two have no member in common. The function reads its arguments only. With four
  different paths a, b, c, d the sets {a, b, c} and {b, c, d} give added = {d} and
  deleted = {a}, and a set compared with itself gives two empty lists.
\<close>

theorem compare_file_sets_spec:
  assumes "lists_each_once list_of" and "finite before" and "finite after"
  shows "set (added_files (compare_file_sets list_of before after)) = after - before
    \<and> set (deleted_files (compare_file_sets list_of before after)) = before - after
    \<and> distinct (added_files (compare_file_sets list_of before after))
    \<and> distinct (deleted_files (compare_file_sets list_of before after))
    \<and> set (added_files (compare_file_sets list_of before after))
        \<inter> set (deleted_files (compare_file_sets list_of before after)) = {}
    \<and> (distinct [a, b, c, d]
        \<longrightarrow> set (added_files (compare_file_sets list_of {a, b, c} {b, c, d})) = {d}
          \<and> set (deleted_files (compare_file_sets list_of {a, b, c} {b, c, d})) = {a})
    \<and> added_files (compare_file_sets list_of before before) = []
    \<and> deleted_files (compare_file_sets list_of before before) = []"
proof -
  from assms(1) have l: "set (list_of S) = S" "distinct (list_of S)" if "finite S" for S
    using that by (auto simp: lists_each_once_def)
  from assms(2,3) have fin: "finite (after - before)" "finite (before - after)" by simp_all
  have ex: "set (list_of ({b, c, d} - {a, b, c})) = {d} \<and> set (list_of ({a, b, c} - {b, c, d})) = {a}"
    if "distinct [a, b, c, d]"
  proof -
    from that have "{b, c, d} - {a, b, c} = {d}" "{a, b, c} - {b, c, d} = {a}" by auto
    then show ?thesis by (simp add: l)
  qed
  have "set (list_of {}) = {}" by (simp add: l)
  then have empty: "list_of {} = []" by simp
  show ?thesis
    using l [OF fin(1)] l [OF fin(2)] ex empty
    by (auto simp: compare_file_sets_def Let_def)
qed

theorem compare_file_sets_spec_witness:
  "set (added_files (compare_file_sets sorted_list_of_set {1::nat, 2, 3} {2, 3, 4})) = {4}
   \<and> set (deleted_files (compare_file_sets sorted_list_of_set {1::nat, 2, 3} {2, 3, 4})) = {1}
   \<and> added_files (compare_file_sets sorted_list_of_set {1::nat, 2, 3} {1, 2, 3}) = []"
proof -
  have 1: "lists_each_once (sorted_list_of_set :: nat set \<Rightarrow> nat list)"
    by (simp add: lists_each_once_def)
  have 2: "finite {1::nat, 2, 3}" "finite {2::nat, 3, 4}" by simp_all
  have 3: "distinct [1::nat, 2, 3, 4]" by simp
  from compare_file_sets_spec [OF 1 2, of 1 2 3 4] 3
  have "set (added_files (compare_file_sets sorted_list_of_set {1::nat, 2, 3} {2, 3, 4})) = {4}
      \<and> set (deleted_files (compare_file_sets sorted_list_of_set {1::nat, 2, 3} {2, 3, 4})) = {1}"
    by blast
  moreover from compare_file_sets_spec [OF 1 2(1) 2(1)]
  have "added_files (compare_file_sets sorted_list_of_set {1::nat, 2, 3} {1, 2, 3}) = []"
    by blast
  ultimately show ?thesis by blast
qed

subsection \<open>The entrypoint rewriting of \<^verbatim>\<open>init_container\<close>\<close>

text \<open>
  C2, as stated, at the entrypoint \<^verbatim>\<open>""\<close> (a single string) and the command
  \<^verbatim>\<open>["python", "app.py"]\<close>: the entrypoint normalises to the one-element sequence
  \<^verbatim>\<open>[""]\<close>, and the command built by the code does not start with it.
\<close>

theorem entrypoint_rewriting_counterexample:
  "command_to_wrap (PyStr '''') (PyList [''python'', ''app.py'']) = [''python'', ''app.py'']
   \<and> spec_sequence_of (PyStr '''') @ spec_sequence_of (PyList [''python'', ''app.py''])
       = ['''', ''python'', ''app.py'']"
  by (simp add: command_to_wrap_def add_command_def)

lemma add_command_sequence:
  "v \<noteq> PyStr [] \<Longrightarrow> add_command v acc = acc @ spec_sequence_of v"
  by (cases v) (simp_all add: add_command_def)

lemma add_command_falsy: "\<not> truthy v \<Longrightarrow> add_command v acc = acc"
  by (simp add: add_command_def)

lemma init_container_no_command:
  assumes "images_get eng = Inr (ep, cmd)" and "\<not> truthy ep" and "\<not> truthy cmd"
  shows "init_container eng s =
    (Inl (RuntimeError (''An unexpected error occurred during container initialization: ''
            @ ''Could not determine the command to wrap from image '' @ quoted (image_name s)
            @ ''. Does it have an ENTRYPOINT or CMD?'')),
     emit [ImagesGet (image_name s), Print (OriginalEntrypoint ep), Print (OriginalCmd cmd)] s)"
proof -
  from assms(2,3) have "command_to_wrap ep cmd = []"
    by (simp add: command_to_wrap_def add_command_falsy)
  with assms(1) show ?thesis
    by (simp add: init_container_def init_try_def get_image_config_def emit_def Let_def)
qed

text \<open>
  C2, amended. A value that is false in \<^verbatim>\<open>if original_entrypoint:\<close> (absent, the empty
  string, the empty sequence) adds nothing; the empty string counts as absent. For every
  other entrypoint and command the command built is the entrypoint's sequence followed by
  the command's sequence. When both values are false \<^verbatim>\<open>init_container\<close> raises
  \<^verbatim>\<open>RuntimeError\<close>, the code's form of the configuration error, and the session has
  made the image inspection and two prints only: no wrapper file and no container.
\<close>

theorem entrypoint_rewriting:
  "(ep \<noteq> PyStr [] \<and> cmd \<noteq> PyStr []
      \<longrightarrow> command_to_wrap ep cmd = spec_sequence_of ep @ spec_sequence_of cmd)
   \<and> command_to_wrap (PyStr []) cmd = command_to_wrap PyNone cmd
   \<and> command_to_wrap ep (PyStr []) = command_to_wrap ep PyNone
   \<and> (images_get eng = Inr (ep, cmd) \<and> \<not> truthy ep \<and> \<not> truthy cmd
      \<longrightarrow> (\<exists>m. fst (init_container eng s) = Inl (RuntimeError m))
        \<and> snd (init_container eng s) =
            emit [ImagesGet (image_name s), Print (OriginalEntrypoint ep),
                  Print (OriginalCmd cmd)] s)"
proof -
  have "command_to_wrap ep cmd = spec_sequence_of ep @ spec_sequence_of cmd"
    if "ep \<noteq> PyStr []" "cmd \<noteq> PyStr []"
    using that by (simp add: command_to_wrap_def add_command_sequence)
  moreover have "command_to_wrap (PyStr []) cmd = command_to_wrap PyNone cmd"
    "command_to_wrap ep (PyStr []) = command_to_wrap ep PyNone"
    by (simp_all add: command_to_wrap_def add_command_def)
  moreover have "(\<exists>m. fst (init_container eng s) = Inl (RuntimeError m))
        \<and> snd (init_container eng s) =
            emit [ImagesGet (image_name s), Print (OriginalEntrypoint ep),
                  Print (OriginalCmd cmd)] s"
    if "images_get eng = Inr (ep, cmd)" "\<not> truthy ep" "\<not> truthy cmd"
    using init_container_no_command [OF that, of s] by simp
  ultimately show ?thesis by blast
qed

theorem entrypoint_rewriting_witness:
  "command_to_wrap (PyList [''/lambda-entrypoint.sh'']) (PyStr ''app.handler'')
     = [''/lambda-entrypoint.sh'', ''app.handler'']
   \<and> command_to_wrap (PyStr ''/bin/sh'') PyNone = [''/bin/sh'']
   \<and> (\<exists>m. fst (init_container (sample_engine\<lparr>images_get := Inr (PyNone, PyList [])\<rparr>)
                \<lparr>image_name = ''docker-image:test'', wrapper_script_path_host = None,
                 events = []\<rparr>) = Inl (RuntimeError m))
   \<and> events (snd (init_container (sample_engine\<lparr>images_get := Inr (PyNone, PyList [])\<rparr>)
                \<lparr>image_name = ''docker-image:test'', wrapper_script_path_host = None,
                 events = []\<rparr>))
     = [ImagesGet ''docker-image:test'', Print (OriginalEntrypoint PyNone),
        Print (OriginalCmd (PyList []))]"
proof -
  let ?eng = "sample_engine\<lparr>images_get := Inr (PyNone, PyList [])\<rparr>"
  let ?s = "\<lparr>image_name = ''docker-image:test'', wrapper_script_path_host = None, events = []\<rparr>"
  have a: "PyList [''/lambda-entrypoint.sh''] \<noteq> PyStr [] \<and> PyStr ''app.handler'' \<noteq> PyStr []"
    by simp
  have b: "PyStr ''/bin/sh'' \<noteq> PyStr [] \<and> PyNone \<noteq> PyStr []"
    by simp
  have c: "images_get ?eng = Inr (PyNone, PyList []) \<and> \<not> truthy PyNone \<and> \<not> truthy (PyList [])"
    by simp
  note t = entrypoint_rewriting
  from t [THEN conjunct1, THEN mp, OF a]
  have 1: "command_to_wrap (PyList [''/lambda-entrypoint.sh'']) (PyStr ''app.handler'')
     = [''/lambda-entrypoint.sh'', ''app.handler'']" by simp
  from t [THEN conjunct1, THEN mp, OF b]
  have 2: "command_to_wrap (PyStr ''/bin/sh'') PyNone = [''/bin/sh'']" by simp
  from t [THEN conjunct2, THEN conjunct2, THEN conjunct2, THEN mp, OF c, of ?s]
  have 3: "(\<exists>m. fst (init_container ?eng ?s) = Inl (RuntimeError m))"
    and 4: "events (snd (init_container ?eng ?s))
     = [ImagesGet ''docker-image:test'', Print (OriginalEntrypoint PyNone),
        Print (OriginalCmd (PyList []))]"
    by (simp_all add: emit_def)
  from 1 2 3 4 show ?thesis by blast
qed

subsection \<open>Evidence retrieval\<close>

text \<open>
  C8. When \<^verbatim>\<open>exec_run\<close> raises, or returns an exit code other than 0,
  \<^verbatim>\<open>retrieve_strace_log\<close> returns the empty string and \<^verbatim>\<open>list_container_files\<close> returns
  the empty set, each with at least one line printed. Both are ordinary return values, so
  the caller goes on with empty evidence.
\<close>

theorem retrieval_non_fatal:
  "((\<exists>e. exec_run (''cat '' @ log_path) = Inl e)
      \<or> (\<exists>exit_code output. exec_run (''cat '' @ log_path) = Inr (exit_code, output)
            \<and> exit_code \<noteq> 0)
      \<longrightarrow> fst (retrieve_strace_log decode exec_run log_path) = []
        \<and> snd (retrieve_strace_log decode exec_run log_path) \<noteq> [])
   \<and> ((\<exists>e. exec_run (''find '' @ [dq] @ path @ [dq] @ '' -type f'') = Inl e)
      \<or> (\<exists>exit_code output.
            exec_run (''find '' @ [dq] @ path @ [dq] @ '' -type f'') = Inr (exit_code, output)
            \<and> exit_code \<noteq> 0)
      \<longrightarrow> fst (list_container_files decode exec_run path) = {}
        \<and> snd (list_container_files decode exec_run path) \<noteq> [])"
  by (auto simp: retrieve_strace_log_def list_container_files_def split: sum.splits)

theorem retrieval_non_fatal_witness:
  "retrieve_strace_log Inr (\<lambda>cmd. Inr (1, ''cat: /tmp/strace.log: No such file or directory''))
       log_path_in_container
     = ([], [ErrorRetrievingLog ''/tmp/strace.log'' 1,
             OutputText ''cat: /tmp/strace.log: No such file or directory''])
   \<and> fst (retrieve_strace_log Inr (\<lambda>cmd. Inl (APIError ''409 Conflict'') :: exn + int \<times> string)
            log_path_in_container) = []
   \<and> list_container_files Inr (\<lambda>cmd. Inl (NotFound ''No such container'') :: exn + int \<times> string)
        ''/'' = ({}, [ExceptionListingFiles ''No such container''])
   \<and> fst (list_container_files (\<lambda>b. Inl (OtherException ''invalid start byte''))
            (\<lambda>cmd. Inr (2, ''find: bad'')) ''/'') = {}"
proof -
  note t = retrieval_non_fatal
  let ?x1 = "\<lambda>cmd::string. Inr (1, ''cat: /tmp/strace.log: No such file or directory'') :: exn + int \<times> string"
  let ?x2 = "\<lambda>cmd::string. Inl (APIError ''409 Conflict'') :: exn + int \<times> string"
  let ?x3 = "\<lambda>cmd::string. Inl (NotFound ''No such container'') :: exn + int \<times> string"
  let ?x4 = "\<lambda>cmd::string. Inr (2, ''find: bad'') :: exn + int \<times> string"
  have h1: "\<exists>exit_code output. ?x1 (''cat '' @ log_path_in_container) = Inr (exit_code, output)
            \<and> exit_code \<noteq> 0" by simp
  have h2: "\<exists>e. ?x2 (''cat '' @ log_path_in_container) = Inl e" by simp
  have h3: "\<exists>e. ?x3 (''find '' @ [dq] @ ''/'' @ [dq] @ '' -type f'') = Inl e" by simp
  have h4: "\<exists>exit_code output. ?x4 (''find '' @ [dq] @ ''/'' @ [dq] @ '' -type f'')
      = Inr (exit_code, output) \<and> exit_code \<noteq> 0" by simp
  from t [THEN conjunct1, THEN mp, OF disjI2, OF h1, of Inr]
  have "fst (retrieve_strace_log Inr ?x1 log_path_in_container) = []" by simp
  moreover have "snd (retrieve_strace_log Inr ?x1 log_path_in_container)
     = [ErrorRetrievingLog ''/tmp/strace.log'' 1,
        OutputText ''cat: /tmp/strace.log: No such file or directory'']"
    by (simp add: retrieve_strace_log_def log_path_in_container_def)
  ultimately have 1: "retrieve_strace_log Inr ?x1 log_path_in_container
     = ([], [ErrorRetrievingLog ''/tmp/strace.log'' 1,
             OutputText ''cat: /tmp/strace.log: No such file or directory''])"
    by (simp add: prod_eq_iff)
  from t [THEN conjunct1, THEN mp, OF disjI1, OF h2, of Inr]
  have 2: "fst (retrieve_strace_log Inr ?x2 log_path_in_container) = []" by simp
  from t [THEN conjunct2, THEN mp, OF disjI1, OF h3, of Inr]
  have "fst (list_container_files Inr ?x3 ''/'') = {}" by simp
  moreover have "snd (list_container_files Inr ?x3 ''/'') = [ExceptionListingFiles ''No such container'']"
    by (simp add: list_container_files_def)
  ultimately have 3: "list_container_files Inr ?x3 ''/'' = ({}, [ExceptionListingFiles ''No such container''])"
    by (simp add: prod_eq_iff)
  from t [THEN conjunct2, THEN mp, OF disjI2, OF h4, of "\<lambda>b. Inl (OtherException ''invalid start byte'')"]
  have 4: "fst (list_container_files (\<lambda>b. Inl (OtherException ''invalid start byte'')) ?x4 ''/'') = {}"
    by simp
  from 1 2 3 4 show ?thesis by blast
qed

subsection \<open>Teardown\<close>

text \<open>
  C9 at the sample session. \<^verbatim>\<open>containers.run\<close> has created the container \<^verbatim>\<open>c1\<close>, its
  status after the wait is \<^verbatim>\<open>exited\<close>, and \<^verbatim>\<open>init_container\<close> raises. The module's
  variable \<^verbatim>\<open>container\<close> is still \<^verbatim>\<open>None\<close> in \<^verbatim>\<open>finally\<close>, so \<^verbatim>\<open>cleanup\<close> deletes
  the wrapper file and attempts neither the stop nor the removal of \<^verbatim>\<open>c1\<close>.
\<close>

theorem session_leaks_unready_container:
  "events (run_session sample_engine ''docker-image:test'') =
     [ImagesGet ''docker-image:test'',
      Print (OriginalEntrypoint (PyList [''/lambda-entrypoint.sh''])),
      Print (OriginalCmd (PyList [''app.handler''])),
      Print (CommandBeingWrapped [''/lambda-entrypoint.sh'', ''app.handler'']),
      MkTemp,
      ScriptWrite ''/tmp/strace_wrapper_k3.sh'',
      ScriptChmod ''/tmp/strace_wrapper_k3.sh'',
      Print (CreatedWrapperScript ''/tmp/strace_wrapper_k3.sh''),
      ContainersRun ''docker-image:test'' ''/wrapper.sh''
        [''/lambda-entrypoint.sh'', ''app.handler''] ''/tmp/strace_wrapper_k3.sh'',
      Print (ContainerStarted ''c1''),
      ContainerReload ''c1'',
      ContainerLogs ''c1'',
      Print (StartupFailureLogs
        ''/wrapper.sh: line 4: /usr/bin/strace: No such file or directory''),
      Print (ScriptError (''An unexpected error occurred during container initialization: ''
        @ ''Container failed to start. Status: exited'')),
      OsPathExists ''/tmp/strace_wrapper_k3.sh'',
      OsUnlink ''/tmp/strace_wrapper_k3.sh'',
      Print (CleanedUpWrapper ''/tmp/strace_wrapper_k3.sh'')]
   \<and> ContainerStop ''c1'' \<notin> set (events (run_session sample_engine ''docker-image:test''))
   \<and> ContainerRemove ''c1'' \<notin> set (events (run_session sample_engine ''docker-image:test''))"
  by (simp add: run_session_def init_container_def init_try_def get_image_config_def
      make_wrapper_def start_container_def cleanup_def command_to_wrap_def add_command_def
      emit_def wrapper_container_path_def sample_engine_def Let_def)

text \<open>
  With a container handle \<^verbatim>\<open>cleanup\<close> attempts the stop, then the removal, then the
  deletion of the wrapper file when its path is set and the file exists, whatever the
  engine answers to each; and a session in which \<^verbatim>\<open>init_container\<close> returned the
  container passes it to \<^verbatim>\<open>cleanup\<close> whether or not the later steps raise.
\<close>

lemma events_stop_container:
  "\<exists>d. events (stop_container eng c s) = events s @ [Print (Stopping c), ContainerStop c, Print d]
     \<and> wrapper_script_path_host (stop_container eng c s) = wrapper_script_path_host s"
  by (simp add: stop_container_def emit_def Let_def split: option.splits)

lemma events_remove_container:
  "\<exists>d. events (remove_container eng c s) = events s @ [Print (Removing c), ContainerRemove c, Print d]
     \<and> wrapper_script_path_host (remove_container eng c s) = wrapper_script_path_host s"
  by (simp add: remove_container_def emit_def Let_def split: option.splits)

lemma cleanup_attempts_every_step:
  "\<exists>d1 d2 d3.
     events (cleanup eng (Some c) s) =
       events s
       @ [Print (Stopping c), ContainerStop c, Print d1,
          Print (Removing c), ContainerRemove c, Print d2]
       @ (case wrapper_script_path_host s of
            None \<Rightarrow> []
          | Some path \<Rightarrow>
              if path = [] then []
              else if os_path_exists eng then [OsPathExists path, OsUnlink path, Print d3]
              else [OsPathExists path])"
proof -
  obtain d1 where 1: "events (stop_container eng c s)
      = events s @ [Print (Stopping c), ContainerStop c, Print d1]"
    "wrapper_script_path_host (stop_container eng c s) = wrapper_script_path_host s"
    using events_stop_container by blast
  obtain d2 where 2: "events (remove_container eng c (stop_container eng c s))
      = events (stop_container eng c s) @ [Print (Removing c), ContainerRemove c, Print d2]"
    "wrapper_script_path_host (remove_container eng c (stop_container eng c s))
      = wrapper_script_path_host (stop_container eng c s)"
    using events_remove_container by blast
  let ?d3 = "case wrapper_script_path_host s of
      None \<Rightarrow> undefined
    | Some path \<Rightarrow> (case os_unlink eng of None \<Rightarrow> CleanedUpWrapper path
                    | Some m \<Rightarrow> CleanupError path m)"
  have "events (cleanup eng (Some c) s) =
       events s
       @ [Print (Stopping c), ContainerStop c, Print d1,
          Print (Removing c), ContainerRemove c, Print d2]
       @ (case wrapper_script_path_host s of
            None \<Rightarrow> []
          | Some path \<Rightarrow>
              if path = [] then []
              else if os_path_exists eng then [OsPathExists path, OsUnlink path, Print ?d3]
              else [OsPathExists path])"
    using 1 2 by (simp add: cleanup_def emit_def Let_def split: option.splits)
  then show ?thesis by blast
qed

lemma session_with_container_cleans_up:
  assumes "init_container eng \<lparr>image_name = img, wrapper_script_path_host = None, events = []\<rparr>
    = (Inr c, s)"
  shows "\<exists>before d1 d2 rest.
     events (run_session eng img) =
       before @ [Print (Stopping c), ContainerStop c, Print d1,
                 Print (Removing c), ContainerRemove c, Print d2] @ rest"
proof -
  let ?s' = "case analysis eng of
      None \<Rightarrow> emit [Analysis c] s
    | Some e \<Rightarrow> emit [Analysis c, Print (if is_RuntimeError e then ScriptError (str_of e)
                                  else UnexpectedScriptError (str_of e))] s"
  from assms have "run_session eng img = cleanup eng (Some c) ?s'"
    by (simp add: run_session_def Let_def split: option.splits)
  moreover from cleanup_attempts_every_step [of eng c ?s'] obtain d1 d2 rest
    where "events (cleanup eng (Some c) ?s') =
       events ?s' @ [Print (Stopping c), ContainerStop c, Print d1,
                     Print (Removing c), ContainerRemove c, Print d2] @ rest"
    by blast
  ultimately have "events (run_session eng img) =
       events ?s' @ [Print (Stopping c), ContainerStop c, Print d1,
                     Print (Removing c), ContainerRemove c, Print d2] @ rest"
    by simp
  then show ?thesis by blast
qed

end
